theory Spec2Isabelle
  imports Complex_Main "HOL-Library.Word" "HOL-Library.Log_Nat"
begin

section \<open>JavaScript values\<close>

text \<open>
  A JavaScript string is a sequence of UTF-16 code units; \<open>length\<close>, \<open>charAt\<close>,
  \<open>substring\<close> and the offsets stored in a candidate all count code units.
  \<open>ascii\<close> writes a literal of the source.
\<close>

type_synonym jsstring = "16 word list"

definition ascii :: "string \<Rightarrow> jsstring" where
  "ascii s = map of_char s"

text \<open>
  \<open>input.charAt(position)\<close>: the one-character string at the index, the empty string
  when the index is out of range (the tokenizer's EOF).
\<close>

definition charAt :: "jsstring \<Rightarrow> int \<Rightarrow> jsstring" where
  "charAt s i = (if 0 \<le> i \<and> i < int (length s) then [s ! nat i] else [])"

text \<open>\<open>input.substring(position)\<close>: a negative start counts as 0.\<close>

definition substring :: "jsstring \<Rightarrow> int \<Rightarrow> jsstring" where
  "substring s i = drop (nat i) s"

text \<open>
  A JavaScript number that \<open>parseInt\<close> and \<open>parseFloat\<close> return on the strings the
  parser reads them at: a sign and the exact magnitude of a binary64 value, or an
  infinity. \<open>Finite True 0\<close> is \<open>-0\<close>.
\<close>

datatype number = Finite bool rat | Infinity bool

text \<open>The variables \<open>w\<close>, \<open>d\<close>, \<open>h\<close> are \<open>undefined\<close> (\<open>None\<close>) or a number.\<close>

definition truthy :: "number option \<Rightarrow> bool" where
  "truthy v = (case v of None \<Rightarrow> False
               | Some (Finite s m) \<Rightarrow> m \<noteq> 0
               | Some (Infinity s) \<Rightarrow> True)"

text \<open>\<open>intVal === 0\<close> (true of both zeros) and \<open>floatVal < 0\<close> (false of both zeros).\<close>

definition strictEqualsZero :: "number \<Rightarrow> bool" where
  "strictEqualsZero n = (case n of Finite s m \<Rightarrow> m = 0 | Infinity s \<Rightarrow> False)"

definition lessThanZero :: "number \<Rightarrow> bool" where
  "lessThanZero n = (case n of Finite s m \<Rightarrow> s \<and> m \<noteq> 0 | Infinity s \<Rightarrow> s)"

subsection \<open>Rounding to binary64\<close>

definition pow2 :: "int \<Rightarrow> rat" where
  "pow2 k = (if 0 \<le> k then 2 ^ nat k else 1 / 2 ^ nat (- k))"

definition pow10 :: "int \<Rightarrow> rat" where
  "pow10 k = (if 0 \<le> k then 10 ^ nat k else 1 / 10 ^ nat (- k))"

text \<open>
  For \<open>q > 0\<close>: the \<open>e\<close> with \<open>2 ^ e \<le> q < 2 ^ (e + 1)\<close>, from the bit lengths
  of the numerator and the denominator.
\<close>

definition floorLog2 :: "rat \<Rightarrow> int" where
  "floorLog2 q =
     (let (a, b) = quotient_of q;
          e = bitlen a - bitlen b
      in if pow2 e \<le> q then e else e - 1)"

definition roundHalfEven :: "rat \<Rightarrow> int" where
  "roundHalfEven r =
     (let f = \<lfloor>r\<rfloor>; t = r - of_int f
      in if t < 1 / 2 then f
         else if 1 / 2 < t then f + 1
         else if even f then f else f + 1)"

text \<open>
  The binary64 value nearest to the magnitude \<open>q \<ge> 0\<close> (ties to even, 53 significant
  bits, subnormals below \<open>2 ^ -1022\<close>, infinity from \<open>2 ^ 1024\<close>), with the sign kept.
\<close>

definition binary64 :: "bool \<Rightarrow> rat \<Rightarrow> number" where
  "binary64 neg q =
     (if q = 0 then Finite neg 0
      else
        let e = max (floorLog2 q) (- 1022);
            k = e - 52;
            v = of_int (roundHalfEven (q / pow2 k)) * pow2 k
        in if pow2 1024 \<le> v then Infinity neg else Finite neg v)"

section \<open>Character classes and regular expressions\<close>

definition isASCIIWhitespace :: "jsstring \<Rightarrow> bool" where
  "isASCIIWhitespace character \<longleftrightarrow>
     character = [0x09] \<or> character = [0x0A] \<or> character = [0x0C] \<or>
     character = [0x0D] \<or> character = [0x20]"

text \<open>
  The three \<open>regexLeading...\<close> expressions have the shape \<open>^[class]+\<close>; each is
  modelled by its character class, and \<open>collectCharacters\<close> takes the longest
  non-empty prefix in the class.
\<close>

definition regexLeadingSpaces :: "16 word \<Rightarrow> bool" where
  "regexLeadingSpaces ch \<longleftrightarrow> ch \<in> {0x20, 0x09, 0x0A, 0x0D, 0x0C}"

definition regexLeadingCommasOrSpaces :: "16 word \<Rightarrow> bool" where
  "regexLeadingCommasOrSpaces ch \<longleftrightarrow> ch \<in> {0x2C, 0x20, 0x09, 0x0A, 0x0D, 0x0C}"

definition regexLeadingNotSpaces :: "16 word \<Rightarrow> bool" where
  "regexLeadingNotSpaces ch \<longleftrightarrow> ch \<notin> {0x20, 0x09, 0x0A, 0x0D, 0x0C}"

text \<open>\<open>url.replace(regexTrailingCommas, "")\<close> with \<open>/[,]+$/\<close>.\<close>

definition replaceTrailingCommas :: "jsstring \<Rightarrow> jsstring" where
  "replaceTrailingCommas url = rev (dropWhile (\<lambda>ch. ch = 0x2C) (rev url))"

text \<open>\<open>url.slice(-1)\<close>: the last character as a string, empty for the empty string.\<close>

definition sliceLast :: "jsstring \<Rightarrow> jsstring" where
  "sliceLast s = (if s = [] then [] else [last s])"

definition isDigit :: "16 word \<Rightarrow> bool" where
  "isDigit ch \<longleftrightarrow> 0x30 \<le> ch \<and> ch \<le> 0x39"

definition digitsValue :: "jsstring \<Rightarrow> int" where
  "digitsValue ds = foldl (\<lambda>n ch. 10 * n + (uint ch - 48)) 0 ds"

text \<open>\<open>regexNonNegativeInteger.test(value)\<close> with \<open>/^\d+$/\<close>.\<close>

definition regexNonNegativeInteger :: "jsstring \<Rightarrow> bool" where
  "regexNonNegativeInteger v \<longleftrightarrow> v \<noteq> [] \<and> list_all isDigit v"

text \<open>
  \<open>regexFloatingPoint\<close>, \<open>/^-?(?:[0-9]+|[0-9]*\.[0-9]+)(?:[eE][+-]?[0-9]+)?$/\<close>, as a
  matcher that returns the parts of the literal: the sign, the integer digits, the
  fraction digits, and the exponent's sign and digits.
\<close>

definition matchFloatingPoint ::
  "jsstring \<Rightarrow> (bool \<times> jsstring \<times> jsstring \<times> (bool \<times> jsstring) option) option" where
  "matchFloatingPoint v =
     (let neg = (v \<noteq> [] \<and> hd v = 0x2D);
          r0 = (if neg then tl v else v);
          ip = takeWhile isDigit r0;
          r1 = dropWhile isDigit r0;
          dotted = (r1 \<noteq> [] \<and> hd r1 = 0x2E \<and> takeWhile isDigit (tl r1) \<noteq> []);
          fp = (if dotted then takeWhile isDigit (tl r1) else []);
          r2 = (if dotted then dropWhile isDigit (tl r1) else r1)
      in if \<not> dotted \<and> ip = [] then None
         else if r2 = [] then Some (neg, ip, fp, None)
         else if hd r2 = 0x65 \<or> hd r2 = 0x45 then
           (let r3 = tl r2;
                signed = (r3 \<noteq> [] \<and> (hd r3 = 0x2B \<or> hd r3 = 0x2D));
                r4 = (if signed then tl r3 else r3)
            in if r4 \<noteq> [] \<and> list_all isDigit r4
               then Some (neg, ip, fp, Some (signed \<and> hd r3 = 0x2D, r4))
               else None)
         else None)"

definition regexFloatingPoint :: "jsstring \<Rightarrow> bool" where
  "regexFloatingPoint v \<longleftrightarrow> matchFloatingPoint v \<noteq> None"

text \<open>
  \<open>parseInt(value, 10)\<close> and \<open>parseFloat(value)\<close>. The parser reads \<open>intVal\<close> only
  where \<open>regexNonNegativeInteger\<close> matched and \<open>floatVal\<close> only where
  \<open>regexFloatingPoint\<close> matched; on such strings the whole string is the numeral, and
  the result is the binary64 value nearest to it (ECMAScript lets an implementation
  approximate a numeral of more than 20 significant digits; the model rounds the exact
  value). On other strings \<open>parseFloat\<close> below returns a zero, and \<open>parseInt\<close> some
  number, that the parser never reads.
\<close>

definition parseInt :: "jsstring \<Rightarrow> number" where
  "parseInt v = binary64 False (of_int (digitsValue v))"

definition parseFloat :: "jsstring \<Rightarrow> number" where
  "parseFloat v =
     (case matchFloatingPoint v of
        None \<Rightarrow> Finite False 0
      | Some (neg, ip, fp, ex) \<Rightarrow>
          binary64 neg
            (of_int (digitsValue (ip @ fp)) * pow10 (- int (length fp))
             * (case ex of None \<Rightarrow> 1
                | Some (eneg, ed) \<Rightarrow>
                    pow10 (if eneg then - digitsValue ed else digitsValue ed))))"

section \<open>The parser\<close>

datatype exn = Error jsstring | TypeError

text \<open>
  The error objects thrown: \<open>new Error(message)\<close>, and the \<open>TypeError\<close> of a method
  call on \<open>undefined\<close>. A candidate is \<open>{ source: { value, startOffset }, width?:
  { value }, density?: { value }, height?: { value } }\<close>: \<open>sourceValue\<close> is the
  \<open>value\<close> of the source, and an optional field is \<open>None\<close> when it is absent and
  holds the number of its \<open>value\<close> otherwise.
\<close>

record source =
  sourceValue :: jsstring
  startOffset :: int

record candidate =
  source :: source
  width :: "number option"
  density :: "number option"
  height :: "number option"

text \<open>
  \<open>collectCharacters(regEx)\<close>: the matched characters (\<open>None\<close> for \<open>undefined\<close>) and
  the new \<open>position\<close>.
\<close>

definition collectCharacters :: "(16 word \<Rightarrow> bool) \<Rightarrow> jsstring \<Rightarrow> int \<Rightarrow> jsstring option \<times> int" where
  "collectCharacters regEx input position =
     (let chars = takeWhile regEx (substring input position)
      in if chars \<noteq> [] then (Some chars, position + int (length chars))
         else (None, position))"

subsection \<open>Descriptor parser\<close>

definition emptyMessage :: jsstring where
  "emptyMessage = ascii ''Must contain one or more image candidate strings.''"

text \<open>
  The template literal of the thrown error; \<open>desc\<close> is the loop variable as the loop
  left it (\<open>None\<close> when the loop never ran, printed as \<open>undefined\<close>).
\<close>

definition invalidMessage :: "jsstring \<Rightarrow> jsstring option \<Rightarrow> jsstring" where
  "invalidMessage input desc =
     ascii ''Invalid srcset descriptor found in \"'' @ input @ ascii ''\" at \"''
     @ (case desc of None \<Rightarrow> ascii ''undefined'' | Some t \<Rightarrow> t)
     @ ascii ''\".''"

text \<open>
  One iteration of the \<open>for\<close> loop over \<open>descriptors\<close>, on the loop's variables
  \<open>(pError, w, d, h, desc)\<close>.
\<close>

type_synonym vars = "bool \<times> number option \<times> number option \<times> number option \<times> jsstring option"

definition descriptorStep :: "vars \<Rightarrow> jsstring \<Rightarrow> vars" where
  "descriptorStep vs desc =
     (case vs of (pError, w, d, h, _) \<Rightarrow>
        let lastChar = sliceLast desc;
            value = butlast desc;
            intVal = parseInt value;
            floatVal = parseFloat value
        in if regexNonNegativeInteger value \<and> lastChar = [0x77] then
             (let pError = (if truthy w \<or> truthy d then True else pError)
              in if strictEqualsZero intVal then (True, w, d, h, Some desc)
                 else (pError, Some intVal, d, h, Some desc))
           else if regexFloatingPoint value \<and> lastChar = [0x78] then
             (let pError = (if truthy w \<or> truthy d \<or> truthy h then True else pError)
              in if lessThanZero floatVal then (True, w, d, h, Some desc)
                 else (pError, w, Some floatVal, h, Some desc))
           else if regexNonNegativeInteger value \<and> lastChar = [0x68] then
             (let pError = (if truthy h \<or> truthy d then True else pError)
              in if strictEqualsZero intVal then (True, w, d, h, Some desc)
                 else (pError, w, d, Some intVal, Some desc))
           else (True, w, d, h, Some desc))"

text \<open>
  \<open>parseDescriptors()\<close> on the shared variables it reads; it returns \<open>candidates\<close>
  with the new candidate pushed, or the thrown error.
\<close>

definition parseDescriptors ::
  "jsstring \<Rightarrow> jsstring \<Rightarrow> int \<Rightarrow> jsstring list \<Rightarrow> candidate list \<Rightarrow> exn + candidate list" where
  "parseDescriptors input url startOffs descriptors candidates =
     (case foldl descriptorStep (False, None, None, None, None) descriptors of
        (pError, w, d, h, desc) \<Rightarrow>
          if \<not> pError then
            Inr (candidates @
              [\<lparr>source = \<lparr>sourceValue = url, startOffset = startOffs\<rparr>,
                width = (if truthy w then w else None),
                density = (if truthy d then d else None),
                height = (if truthy h then h else None)\<rparr>])
          else Inl (Error (invalidMessage input desc)))"

subsection \<open>Descriptor tokenizer\<close>

datatype tokState = InDescriptor | InParens | AfterDescriptor

text \<open>
  One iteration of the \<open>while (true)\<close> loop of \<open>tokenize()\<close>, on the variables
  \<open>position\<close>, \<open>state\<close>, \<open>currentDescriptor\<close> and \<open>descriptors\<close>: either the
  variables for the next iteration (the closing \<open>position += 1\<close> included), or the jump
  to the descriptor parser with \<open>descriptors\<close> and \<open>position\<close> as they are then.
\<close>

datatype iteration =
  Continue int tokState jsstring "jsstring list"
  | DescriptorParser "jsstring list" int

definition tokenizeStep ::
  "jsstring \<Rightarrow> int \<Rightarrow> tokState \<Rightarrow> jsstring \<Rightarrow> jsstring list \<Rightarrow> iteration" where
  "tokenizeStep input position state currentDescriptor descriptors =
     (let c = charAt input position in
      case state of
        InDescriptor \<Rightarrow>
          if isASCIIWhitespace c then
            (if currentDescriptor \<noteq> [] then
               Continue (position + 1) AfterDescriptor [] (descriptors @ [currentDescriptor])
             else Continue (position + 1) InDescriptor currentDescriptor descriptors)
          else if c = [0x2C] then
            DescriptorParser
              (if currentDescriptor \<noteq> [] then descriptors @ [currentDescriptor] else descriptors)
              (position + 1)
          else if c = [0x28] then
            Continue (position + 1) InParens (currentDescriptor @ c) descriptors
          else if c = [] then
            DescriptorParser
              (if currentDescriptor \<noteq> [] then descriptors @ [currentDescriptor] else descriptors)
              position
          else Continue (position + 1) InDescriptor (currentDescriptor @ c) descriptors
      | InParens \<Rightarrow>
          if c = [0x29] then
            Continue (position + 1) InDescriptor (currentDescriptor @ c) descriptors
          else if c = [] then DescriptorParser (descriptors @ [currentDescriptor]) position
          else Continue (position + 1) InParens (currentDescriptor @ c) descriptors
      | AfterDescriptor \<Rightarrow>
          if isASCIIWhitespace c then
            Continue (position + 1) AfterDescriptor currentDescriptor descriptors
          else if c = [] then DescriptorParser descriptors position
          else Continue (position - 1 + 1) InDescriptor currentDescriptor descriptors)"

text \<open>
  Every iteration that continues either moves \<open>position\<close> forward, or (the rewind of
  the after-descriptor state) keeps it and leaves that state: \<open>tokenizeMeasure\<close>
  counts two for each character from \<open>position\<close> on, and one more in the
  after-descriptor state.
\<close>

definition tokenizeMeasure :: "jsstring \<Rightarrow> int \<Rightarrow> tokState \<Rightarrow> nat" where
  "tokenizeMeasure input position state =
     2 * nat (int (length input) - position) + (if state = AfterDescriptor then 1 else 0)"

lemma charAt_in_range: "charAt s i \<noteq> [] \<longleftrightarrow> 0 \<le> i \<and> i < int (length s)"
  by (simp add: charAt_def)

lemma isASCIIWhitespace_nonempty: "isASCIIWhitespace c \<Longrightarrow> c \<noteq> []"
  by (auto simp: isASCIIWhitespace_def)

lemma tokenizeStep_Continue_in_range:
  assumes "tokenizeStep input position state currentDescriptor descriptors
             = Continue position' state' currentDescriptor' descriptors'"
  shows "0 \<le> position \<and> position < int (length input)"
proof -
  have "charAt input position \<noteq> []"
    using assms isASCIIWhitespace_nonempty[of "charAt input position"]
    by (cases state) (auto simp: tokenizeStep_def Let_def split: if_splits)
  then show ?thesis by (simp add: charAt_in_range)
qed

lemma tokenizeStep_measure:
  assumes "tokenizeStep input position state currentDescriptor descriptors
             = Continue position' state' currentDescriptor' descriptors'"
  shows "tokenizeMeasure input position' state' < tokenizeMeasure input position state"
  using assms tokenizeStep_Continue_in_range[OF assms]
  by (cases state) (auto simp: tokenizeStep_def tokenizeMeasure_def Let_def split: if_splits)

text \<open>The loop itself, up to the jump to the descriptor parser.\<close>

function tokenizeLoop ::
  "jsstring \<Rightarrow> int \<Rightarrow> tokState \<Rightarrow> jsstring \<Rightarrow> jsstring list \<Rightarrow> jsstring list \<times> int" where
  "tokenizeLoop input position state currentDescriptor descriptors =
     (case tokenizeStep input position state currentDescriptor descriptors of
        Continue position state currentDescriptor descriptors \<Rightarrow>
          tokenizeLoop input position state currentDescriptor descriptors
      | DescriptorParser descriptors position \<Rightarrow> (descriptors, position))"
  by pat_completeness auto

lemma tokenizeLoop_total: "All tokenizeLoop_dom"
proof (relation "measure (\<lambda>(input, position, state, currentDescriptor, descriptors).
          tokenizeMeasure input position state)", goal_cases)
  case 1
  show ?case by simp
next
  case (2 input position state currentDescriptor descriptors position' state' cur' descs')
  then show ?case using tokenizeStep_measure by simp
qed

termination tokenizeLoop
  by (rule tokenizeLoop_total)

declare tokenizeLoop.simps [simp del]

text \<open>
  \<open>tokenize()\<close>: skip whitespace, run the state machine from the in-descriptor state
  with an empty current descriptor, then the descriptor parser. It returns the
  shared variables it changed, \<open>candidates\<close> and \<open>position\<close>, or the thrown error.
\<close>

definition tokenize ::
  "jsstring \<Rightarrow> jsstring \<Rightarrow> int \<Rightarrow> int \<Rightarrow> jsstring list \<Rightarrow> candidate list
     \<Rightarrow> exn + candidate list \<times> int" where
  "tokenize input url startOffs position descriptors candidates =
     (case collectCharacters regexLeadingSpaces input position of
        (_, position) \<Rightarrow>
          (case tokenizeLoop input position InDescriptor [] descriptors of
             (descriptors, position) \<Rightarrow>
               (case parseDescriptors input url startOffs descriptors candidates of
                  Inl e \<Rightarrow> Inl e
                | Inr candidates \<Rightarrow> Inr (candidates, position))))"

lemma collectCharacters_position_le:
  "collectCharacters regEx input position = (r, position') \<Longrightarrow> position \<le> position'"
  by (auto simp: collectCharacters_def Let_def split: if_splits)

lemma collectCharacters_Some:
  "collectCharacters regEx input position = (Some chars, position') \<Longrightarrow>
     chars \<noteq> [] \<and> chars = takeWhile regEx (substring input position)
     \<and> position' = position + int (length chars)"
  by (auto simp: collectCharacters_def Let_def split: if_splits)

lemma tokenizeStep_position_le:
  "tokenizeStep input position state currentDescriptor descriptors
     = Continue position' state' currentDescriptor' descriptors' \<Longrightarrow> position \<le> position'"
  "tokenizeStep input position state currentDescriptor descriptors
     = DescriptorParser descriptors'' position'' \<Longrightarrow> position \<le> position''"
  by (cases state; auto simp: tokenizeStep_def Let_def split: if_splits)+

lemma tokenizeLoop_position_le:
  "tokenizeLoop input position state currentDescriptor descriptors = (descriptors', position')
     \<Longrightarrow> position \<le> position'"
proof (induction input position state currentDescriptor descriptors rule: tokenizeLoop.induct)
  case (1 input position state currentDescriptor descriptors)
  show ?case
  proof (cases "tokenizeStep input position state currentDescriptor descriptors")
    case (Continue p s c d)
    then have "tokenizeLoop input p s c d = (descriptors', position')"
      using "1.prems" by (subst (asm) tokenizeLoop.simps) simp
    then have "p \<le> position'" using "1.IH" Continue by simp
    then show ?thesis using tokenizeStep_position_le(1)[OF Continue] by simp
  next
    case (DescriptorParser d p)
    then have "p = position'"
      using "1.prems" by (subst (asm) tokenizeLoop.simps) simp
    then show ?thesis using tokenizeStep_position_le(2)[OF DescriptorParser] by simp
  qed
qed

lemma tokenize_position_le:
  assumes "tokenize input url startOffs position descriptors candidates = Inr (candidates', position')"
  shows "position \<le> position'"
proof -
  obtain r p1 where c: "collectCharacters regexLeadingSpaces input position = (r, p1)"
    by (cases "collectCharacters regexLeadingSpaces input position")
  obtain ds p2 where t: "tokenizeLoop input p1 InDescriptor [] descriptors = (ds, p2)"
    by (cases "tokenizeLoop input p1 InDescriptor [] descriptors")
  from assms c t have "position' = p2"
    by (auto simp: tokenize_def split: sum.splits)
  with collectCharacters_position_le[OF c] tokenizeLoop_position_le[OF t]
  show ?thesis by simp
qed

subsection \<open>Splitting loop\<close>

text \<open>
  The \<open>while (true)\<close> loop of \<open>parseSrcset\<close> on \<open>position\<close> and \<open>candidates\<close>.
  \<open>url.slice(-1)\<close> on an \<open>undefined\<close> url would throw a \<open>TypeError\<close>.
\<close>

function parseLoop :: "jsstring \<Rightarrow> int \<Rightarrow> candidate list \<Rightarrow> exn + candidate list" where
  "parseLoop input position candidates =
     (case collectCharacters regexLeadingCommasOrSpaces input position of
        (_, position) \<Rightarrow>
          if position \<ge> int (length input) then
            (if length candidates = 0 then Inl (Error emptyMessage) else Inr candidates)
          else
            (let startOffs = position in
             case collectCharacters regexLeadingNotSpaces input position of
               (url, position) \<Rightarrow>
                 (let descriptors = [] in
                  case url of
                    None \<Rightarrow> Inl TypeError
                  | Some url \<Rightarrow>
                      if sliceLast url = [0x2C] then
                        (let url = replaceTrailingCommas url in
                         case parseDescriptors input url startOffs descriptors candidates of
                           Inl e \<Rightarrow> Inl e
                         | Inr candidates \<Rightarrow> parseLoop input position candidates)
                      else
                        (case tokenize input url startOffs position descriptors candidates of
                           Inl e \<Rightarrow> Inl e
                         | Inr (candidates, position) \<Rightarrow> parseLoop input position candidates))))"
  by pat_completeness auto

lemma parseLoop_total: "All parseLoop_dom"
proof (relation "measure (\<lambda>(input, position, candidates). nat (int (length input) - position))",
       goal_cases)
  case 1
  show ?case by simp
next
  case (2 input position candidates x y xa xb ya xc x2 xd b)
  have "collectCharacters regexLeadingCommasOrSpaces input position = (x, y)"
    using 2 by simp
  then have "position \<le> y" by (rule collectCharacters_position_le)
  moreover have "collectCharacters regexLeadingNotSpaces input y = (Some x2, ya)"
    using 2 by simp
  then have "y < ya" by (auto dest: collectCharacters_Some)
  ultimately show ?case using 2 by simp
next
  case (3 input position candidates x y xa xb ya xc x2 b xd yb)
  have "collectCharacters regexLeadingCommasOrSpaces input position = (x, y)"
    using 3 by simp
  then have "position \<le> y" by (rule collectCharacters_position_le)
  moreover have "collectCharacters regexLeadingNotSpaces input y = (Some x2, ya)"
    using 3 by simp
  then have "y < ya" by (auto dest: collectCharacters_Some)
  moreover have "tokenize input x2 y ya [] candidates = Inr (xd, yb)"
    using 3 by simp
  then have "ya \<le> yb" by (rule tokenize_position_le)
  ultimately show ?case using 3 by simp
qed

termination parseLoop
  by (rule parseLoop_total)

declare parseLoop.simps [simp del]

definition parseSrcset :: "jsstring \<Rightarrow> exn + candidate list" where
  "parseSrcset input = parseLoop input 0 []"

section \<open>Invariants\<close>

subsection \<open>The descriptor parser's loop\<close>

text \<open>
  As long as no error is flagged, a truthy \<open>d\<close> comes with no truthy \<open>w\<close> and no
  truthy \<open>h\<close>.
\<close>

definition exclusive :: "vars \<Rightarrow> bool" where
  "exclusive vs = (case vs of (pError, w, d, h, desc) \<Rightarrow>
     pError \<or> (\<not> (truthy w \<and> truthy d) \<and> \<not> (truthy h \<and> truthy d)))"

lemma descriptorStep_exclusive: "exclusive vs \<Longrightarrow> exclusive (descriptorStep vs desc)"
  by (cases vs) (auto simp: exclusive_def descriptorStep_def Let_def)

lemma foldl_descriptorStep_exclusive:
  "exclusive vs \<Longrightarrow> exclusive (foldl descriptorStep vs descriptors)"
  by (induction descriptors arbitrary: vs) (simp_all add: descriptorStep_exclusive)

text \<open>After the loop has run, \<open>desc\<close> is the last descriptor.\<close>

lemma descriptorStep_desc: "\<exists>pError w d h. descriptorStep vs desc = (pError, w, d, h, Some desc)"
  by (cases vs) (auto simp: descriptorStep_def Let_def)

lemma foldl_descriptorStep_desc:
  "descriptors \<noteq> [] \<Longrightarrow>
     \<exists>pError w d h. foldl descriptorStep vs descriptors = (pError, w, d, h, Some (last descriptors))"
proof (induction descriptors arbitrary: vs rule: rev_induct)
  case Nil
  then show ?case by simp
next
  case (snoc desc descriptors)
  show ?case using descriptorStep_desc[of "foldl descriptorStep vs descriptors" desc] by simp
qed

lemma parseDescriptors_Inr:
  assumes "parseDescriptors input url startOffs descriptors candidates = Inr res"
  shows "\<exists>c. res = candidates @ [c] \<and> source c = \<lparr>sourceValue = url, startOffset = startOffs\<rparr>
           \<and> (width c = None \<or> density c = None) \<and> (height c = None \<or> density c = None)"
proof -
  obtain pError w d h desc
    where f: "foldl descriptorStep (False, None, None, None, None) descriptors = (pError, w, d, h, desc)"
    by (metis prod_cases5)
  have "exclusive (False, None, None, None, None)"
    by (simp add: exclusive_def truthy_def)
  then have "exclusive (pError, w, d, h, desc)"
    using foldl_descriptorStep_exclusive f by metis
  with assms f show ?thesis
    by (auto simp: parseDescriptors_def exclusive_def split: if_splits)
qed

lemma parseDescriptors_Inl:
  assumes "parseDescriptors input url startOffs descriptors candidates = Inl e"
  shows "\<exists>desc. e = Error (invalidMessage input (Some desc))"
proof (cases "descriptors = []")
  case True
  with assms show ?thesis by (simp add: parseDescriptors_def)
next
  case False
  from foldl_descriptorStep_desc[OF False, of "(False, None, None, None, None)"] assms
  show ?thesis
    by (auto simp: parseDescriptors_def split: if_splits)
qed

subsection \<open>The splitting loop\<close>

text \<open>
  After the separators are skipped and before the end of the input, the next
  character is no separator, so a url is collected.
\<close>

lemma url_collected:
  assumes "0 \<le> position"
    and "collectCharacters regexLeadingCommasOrSpaces input position = (r, p1)"
    and "p1 < int (length input)"
  shows "takeWhile regexLeadingNotSpaces (substring input p1) \<noteq> []"
proof -
  let ?xs = "drop (nat position) input"
  let ?chars = "takeWhile regexLeadingCommasOrSpaces ?xs"
  have p1: "p1 = position + int (length ?chars)"
    using assms(2) by (auto simp: collectCharacters_def substring_def Let_def split: if_splits)
  have "drop (nat p1) input = drop (length ?chars) ?xs"
    using assms(1) by (simp add: p1 nat_add_distrib add.commute)
  also have "\<dots> = dropWhile regexLeadingCommasOrSpaces ?xs"
    by (simp add: dropWhile_eq_drop)
  finally have d: "substring input p1 = dropWhile regexLeadingCommasOrSpaces ?xs"
    by (simp add: substring_def)
  have "substring input p1 \<noteq> []"
    using assms(1,3) p1 by (simp add: substring_def)
  then have "\<not> regexLeadingCommasOrSpaces (hd (substring input p1))"
    unfolding d by (rule hd_dropWhile)
  then have "regexLeadingNotSpaces (hd (substring input p1))"
    by (auto simp: regexLeadingCommasOrSpaces_def regexLeadingNotSpaces_def)
  with \<open>substring input p1 \<noteq> []\<close> show ?thesis
    by (cases "substring input p1") auto
qed

text \<open>
  What holds of every candidate pushed: its source value is in the input at its start
  offset, and a density comes with no width and no height.
\<close>

definition placed :: "jsstring \<Rightarrow> candidate \<Rightarrow> bool" where
  "placed input c \<longleftrightarrow>
     0 \<le> startOffset (source c) \<and>
     take (length (sourceValue (source c))) (drop (nat (startOffset (source c))) input)
       = sourceValue (source c) \<and>
     (width c = None \<or> density c = None) \<and> (height c = None \<or> density c = None)"

lemma take_replaceTrailingCommas:
  "take (length (replaceTrailingCommas url)) url = replaceTrailingCommas url"
  by (simp add: replaceTrailingCommas_def dropWhile_eq_drop rev_drop)

lemma placed_prefix:
  assumes "take (length url) xs = url"
  shows "take (length (replaceTrailingCommas url)) xs = replaceTrailingCommas url"
proof -
  have "length (replaceTrailingCommas url) \<le> length url"
    using length_dropWhile_le[of "\<lambda>ch. ch = 0x2C" "rev url"]
    by (simp add: replaceTrailingCommas_def)
  then have "take (length (replaceTrailingCommas url)) xs
      = take (length (replaceTrailingCommas url)) (take (length url) xs)"
    by (simp add: min_def)
  then show ?thesis using assms take_replaceTrailingCommas by simp
qed

text \<open>
  What holds of the result of the loop: candidates as above, or one of the two errors.
\<close>

definition outcome :: "jsstring \<Rightarrow> exn + candidate list \<Rightarrow> bool" where
  "outcome input r =
     (case r of
        Inr res \<Rightarrow> list_all (placed input) res
      | Inl e \<Rightarrow> e = Error emptyMessage \<or> (\<exists>desc. e = Error (invalidMessage input (Some desc))))"

lemma parseLoop_outcome:
  "0 \<le> position \<Longrightarrow> list_all (placed input) candidates \<Longrightarrow>
     outcome input (parseLoop input position candidates)"
proof (induction input position candidates rule: parseLoop.induct)
  case (1 input position candidates)
  obtain r1 p1 where c1: "collectCharacters regexLeadingCommasOrSpaces input position = (r1, p1)"
    by (cases "collectCharacters regexLeadingCommasOrSpaces input position")
  have p1: "position \<le> p1" using c1 by (rule collectCharacters_position_le)
  show ?case
  proof (cases "int (length input) \<le> p1")
    case True
    then have "parseLoop input position candidates =
        (if length candidates = 0 then Inl (Error emptyMessage) else Inr candidates)"
      by (subst parseLoop.simps) (simp add: c1)
    then show ?thesis using "1.prems" by (simp add: outcome_def)
  next
    case False
    obtain u p2 where c2: "collectCharacters regexLeadingNotSpaces input p1 = (u, p2)"
      by (cases "collectCharacters regexLeadingNotSpaces input p1")
    have "takeWhile regexLeadingNotSpaces (substring input p1) \<noteq> []"
      using url_collected[OF "1.prems"(1) c1] False by simp
    then obtain url where u: "u = Some url"
      using c2 by (auto simp: collectCharacters_def Let_def)
    from collectCharacters_Some[OF c2[unfolded u]]
    have url: "url = takeWhile regexLeadingNotSpaces (substring input p1)"
      and p2: "p1 < p2" by auto
    have tk: "take (length url) (drop (nat p1) input) = url"
      unfolding url substring_def by (rule takeWhile_eq_take[symmetric])
    show ?thesis
    proof (cases "sliceLast url = [0x2C]")
      case comma: True
      show ?thesis
      proof (cases "parseDescriptors input (replaceTrailingCommas url) p1 [] candidates")
        case (Inl e)
        then have "parseLoop input position candidates = Inl e"
          using False comma by (subst parseLoop.simps) (simp add: c1 c2 u)
        then show ?thesis using parseDescriptors_Inl[OF Inl] by (auto simp: outcome_def)
      next
        case (Inr cs)
        then have eq: "parseLoop input position candidates = parseLoop input p2 cs"
          using False comma by (subst parseLoop.simps) (simp add: c1 c2 u)
        from parseDescriptors_Inr[OF Inr] obtain c where c: "cs = candidates @ [c]"
          "source c = \<lparr>sourceValue = replaceTrailingCommas url, startOffset = p1\<rparr>"
          "width c = None \<or> density c = None" "height c = None \<or> density c = None"
          by blast
        have "placed input c"
          using c p1 "1.prems"(1) placed_prefix[OF tk] by (simp add: placed_def)
        then have all: "list_all (placed input) cs" using "1.prems"(2) c(1) by simp
        have "0 \<le> p2" using p1 p2 "1.prems"(1) by simp
        then have "outcome input (parseLoop input p2 cs)"
          using all
          by (rule "1.IH"(1)[OF c1[symmetric] False refl c2[symmetric] refl u comma refl Inr])
        then show ?thesis by (simp add: eq)
      qed
    next
      case nocomma: False
      show ?thesis
      proof (cases "tokenize input url p1 p2 [] candidates")
        case (Inl e)
        then have "parseLoop input position candidates = Inl e"
          using False nocomma by (subst parseLoop.simps) (simp add: c1 c2 u)
        moreover have "\<exists>desc. e = Error (invalidMessage input (Some desc))"
          using Inl parseDescriptors_Inl
          by (fastforce simp: tokenize_def split: prod.splits sum.splits)
        ultimately show ?thesis by (auto simp: outcome_def)
      next
        case (Inr res)
        obtain cs p3 where res: "res = (cs, p3)" by (cases res)
        have eq: "parseLoop input position candidates = parseLoop input p3 cs"
          using False nocomma Inr res by (subst parseLoop.simps) (simp add: c1 c2 u)
        have p3: "p2 \<le> p3" using Inr[unfolded res] by (rule tokenize_position_le)
        obtain ds where pd: "parseDescriptors input url p1 ds candidates = Inr cs"
          using Inr res by (auto simp: tokenize_def split: prod.splits sum.splits)
        from parseDescriptors_Inr[OF pd] obtain c where c: "cs = candidates @ [c]"
          "source c = \<lparr>sourceValue = url, startOffset = p1\<rparr>"
          "width c = None \<or> density c = None" "height c = None \<or> density c = None"
          by blast
        have "placed input c"
          using c p1 "1.prems"(1) tk by (simp add: placed_def)
        then have all: "list_all (placed input) cs" using "1.prems"(2) c(1) by simp
        have "0 \<le> p3" using p1 p2 p3 "1.prems"(1) by simp
        then have "outcome input (parseLoop input p3 cs)"
          using all
          by (rule "1.IH"(2)[OF c1[symmetric] False refl c2[symmetric] refl u nocomma Inr
                res[symmetric]])
        then show ?thesis by (simp add: eq)
      qed
    qed
  qed
qed

lemma parseSrcset_outcome: "outcome input (parseSrcset input)"
  unfolding parseSrcset_def by (rule parseLoop_outcome) simp_all

lemma parseSrcset_placed:
  assumes "parseSrcset input = Inr candidates" and "c \<in> set candidates"
  shows "placed input c"
  using parseSrcset_outcome[of input] assms by (simp add: outcome_def list_all_iff)

subsection \<open>The loops on a split input\<close>

lemma charAt_append_Cons: "charAt (xs @ y # ys) (int (length xs)) = [y]"
  by (simp add: charAt_def)

lemma charAt_append_Nil: "charAt xs (int (length xs)) = []"
  by (simp add: charAt_def)

lemma tokenizeLoop_plain:
  assumes "\<forall>ch\<in>set t. ch \<notin> {0x09, 0x0A, 0x0C, 0x0D, 0x20, 0x2C, 0x28}"
  shows "tokenizeLoop (xs @ t @ ys) (int (length xs)) InDescriptor cur ds
       = tokenizeLoop (xs @ t @ ys) (int (length xs) + int (length t)) InDescriptor (cur @ t) ds"
  using assms
proof (induction t arbitrary: xs cur)
  case Nil
  show ?case by simp
next
  case (Cons c t)
  have "tokenizeStep (xs @ (c # t) @ ys) (int (length xs)) InDescriptor cur ds
      = Continue (int (length xs) + 1) InDescriptor (cur @ [c]) ds"
    using Cons.prems charAt_append_Cons[of xs c "t @ ys"]
    by (simp add: tokenizeStep_def isASCIIWhitespace_def)
  then have "tokenizeLoop (xs @ (c # t) @ ys) (int (length xs)) InDescriptor cur ds
      = tokenizeLoop ((xs @ [c]) @ t @ ys) (int (length (xs @ [c]))) InDescriptor (cur @ [c]) ds"
    by (subst tokenizeLoop.simps) (simp add: add.commute)
  also have "\<dots> = tokenizeLoop ((xs @ [c]) @ t @ ys) (int (length (xs @ [c])) + int (length t))
      InDescriptor ((cur @ [c]) @ t) ds"
    using Cons.prems by (intro Cons.IH) simp
  finally show ?case by (simp add: add.commute add.left_commute)
qed

lemma tokenizeLoop_after_separators:
  assumes "\<forall>ch\<in>set ys. regexLeadingCommasOrSpaces ch"
  shows "\<exists>p. tokenizeLoop (xs @ ys) (int (length xs)) AfterDescriptor [] ds = (ds, p)
           \<and> int (length xs) \<le> p \<and> p \<le> int (length (xs @ ys))"
  using assms
proof (induction ys arbitrary: xs)
  case Nil
  have "tokenizeStep xs (int (length xs)) AfterDescriptor [] ds
      = DescriptorParser ds (int (length xs))"
    by (simp add: tokenizeStep_def charAt_append_Nil isASCIIWhitespace_def)
  then show ?case by (subst tokenizeLoop.simps) simp
next
  case (Cons c ys)
  let ?input = "xs @ c # ys"
  have at: "charAt ?input (int (length xs)) = [c]" by (rule charAt_append_Cons)
  show ?case
  proof (cases "c = 0x2C")
    case True
    have "tokenizeStep ?input (int (length xs)) AfterDescriptor [] ds
        = Continue (int (length xs)) InDescriptor [] ds"
      using True at by (simp add: tokenizeStep_def isASCIIWhitespace_def)
    moreover have "tokenizeStep ?input (int (length xs)) InDescriptor [] ds
        = DescriptorParser ds (int (length xs) + 1)"
      using True at by (simp add: tokenizeStep_def isASCIIWhitespace_def)
    ultimately have "tokenizeLoop ?input (int (length xs)) AfterDescriptor [] ds
        = (ds, int (length xs) + 1)"
      by (subst tokenizeLoop.simps, simp, subst tokenizeLoop.simps, simp)
    then show ?thesis by simp
  next
    case False
    then have ws: "isASCIIWhitespace [c]"
      using Cons.prems by (auto simp: regexLeadingCommasOrSpaces_def isASCIIWhitespace_def)
    have "tokenizeStep ?input (int (length xs)) AfterDescriptor [] ds
        = Continue (int (length xs) + 1) AfterDescriptor [] ds"
      using ws at by (simp add: tokenizeStep_def)
    then have "tokenizeLoop ?input (int (length xs)) AfterDescriptor [] ds
        = tokenizeLoop ((xs @ [c]) @ ys) (int (length (xs @ [c]))) AfterDescriptor [] ds"
      by (subst tokenizeLoop.simps) (simp add: add.commute)
    moreover obtain p where
      "tokenizeLoop ((xs @ [c]) @ ys) (int (length (xs @ [c]))) AfterDescriptor [] ds = (ds, p)"
      "int (length (xs @ [c])) \<le> p" "p \<le> int (length ((xs @ [c]) @ ys))"
      using Cons.IH[of "xs @ [c]"] Cons.prems by auto
    ultimately show ?thesis by auto
  qed
qed

lemma tokenizeLoop_descriptor_end:
  assumes "cur \<noteq> []" and "\<forall>ch\<in>set ys. regexLeadingCommasOrSpaces ch"
  shows "\<exists>p. tokenizeLoop (xs @ ys) (int (length xs)) InDescriptor cur ds = (ds @ [cur], p)
           \<and> int (length xs) \<le> p \<and> p \<le> int (length (xs @ ys))"
proof (cases ys)
  case Nil
  have "tokenizeStep xs (int (length xs)) InDescriptor cur ds
      = DescriptorParser (ds @ [cur]) (int (length xs))"
    using assms(1) by (simp add: tokenizeStep_def charAt_append_Nil isASCIIWhitespace_def)
  then show ?thesis using Nil by (subst tokenizeLoop.simps) simp
next
  case (Cons c zs)
  let ?input = "xs @ c # zs"
  have at: "charAt ?input (int (length xs)) = [c]" by (rule charAt_append_Cons)
  show ?thesis
  proof (cases "c = 0x2C")
    case True
    have "tokenizeStep ?input (int (length xs)) InDescriptor cur ds
        = DescriptorParser (ds @ [cur]) (int (length xs) + 1)"
      using True at assms(1) by (simp add: tokenizeStep_def isASCIIWhitespace_def)
    then have "tokenizeLoop ?input (int (length xs)) InDescriptor cur ds
        = (ds @ [cur], int (length xs) + 1)"
      by (subst tokenizeLoop.simps) simp
    then show ?thesis using Cons by simp
  next
    case False
    then have ws: "isASCIIWhitespace [c]"
      using assms(2) Cons by (auto simp: regexLeadingCommasOrSpaces_def isASCIIWhitespace_def)
    have "tokenizeStep ?input (int (length xs)) InDescriptor cur ds
        = Continue (int (length xs) + 1) AfterDescriptor [] (ds @ [cur])"
      using ws at assms(1) by (simp add: tokenizeStep_def)
    then have "tokenizeLoop ?input (int (length xs)) InDescriptor cur ds
        = tokenizeLoop ((xs @ [c]) @ zs) (int (length (xs @ [c]))) AfterDescriptor [] (ds @ [cur])"
      by (subst tokenizeLoop.simps) (simp add: add.commute)
    moreover obtain p where
      "tokenizeLoop ((xs @ [c]) @ zs) (int (length (xs @ [c]))) AfterDescriptor [] (ds @ [cur])
         = (ds @ [cur], p)"
      "int (length (xs @ [c])) \<le> p" "p \<le> int (length ((xs @ [c]) @ zs))"
      using tokenizeLoop_after_separators[of zs "xs @ [c]" "ds @ [cur]"] assms(2) Cons by auto
    ultimately show ?thesis using Cons by auto
  qed
qed

lemma parseLoop_at_end:
  assumes "collectCharacters regexLeadingCommasOrSpaces input position = (r, p)"
    and "int (length input) \<le> p"
  shows "parseLoop input position candidates =
           (if length candidates = 0 then Inl (Error emptyMessage) else Inr candidates)"
  using assms by (subst parseLoop.simps) simp

lemma parseLoop_tokenize:
  assumes "collectCharacters regexLeadingCommasOrSpaces input position = (r, p1)"
    and "\<not> int (length input) \<le> p1"
    and "collectCharacters regexLeadingNotSpaces input p1 = (Some url, p2)"
    and "sliceLast url \<noteq> [0x2C]"
  shows "parseLoop input position candidates =
           (case tokenize input url p1 p2 [] candidates of
              Inl e \<Rightarrow> Inl e
            | Inr (candidates, position) \<Rightarrow> parseLoop input position candidates)"
  using assms by (subst parseLoop.simps) simp

lemma parseLoop_trailing_separators:
  assumes "0 \<le> position"
    and "\<forall>ch\<in>set (drop (nat position) input). regexLeadingCommasOrSpaces ch"
    and "candidates \<noteq> []"
  shows "parseLoop input position candidates = Inr candidates"
proof -
  have all: "takeWhile regexLeadingCommasOrSpaces (drop (nat position) input)
      = drop (nat position) input"
    using assms(2) by (simp add: takeWhile_eq_all_conv)
  obtain r p where c: "collectCharacters regexLeadingCommasOrSpaces input position = (r, p)"
    by (cases "collectCharacters regexLeadingCommasOrSpaces input position")
  then have "int (length input) \<le> p"
    using assms(1) by (auto simp: collectCharacters_def substring_def Let_def all split: if_splits)
  from parseLoop_at_end[OF c this] assms(3) show ?thesis by simp
qed

lemma drop_append_beyond: "length xs \<le> n \<Longrightarrow> drop n (xs @ ys) = drop (n - length xs) ys"
  by simp

lemma takeWhile_run:
  assumes "\<forall>x\<in>set xs. P x" and "ys = [] \<or> \<not> P (hd ys)"
  shows "takeWhile P (xs @ ys) = xs"
  using assms by (cases ys) (simp_all add: takeWhile_append2)

text \<open>
  A URL, a run of whitespace and one descriptor token between runs of separators: the
  parse is the descriptor parser's result on that URL, the length of the leading run
  as start offset, and that one descriptor.
\<close>

lemma parseSrcset_single_pair:
  assumes pre: "\<forall>ch\<in>set pre. regexLeadingCommasOrSpaces ch"
    and post: "\<forall>ch\<in>set post. regexLeadingCommasOrSpaces ch"
    and url: "url \<noteq> []" "\<forall>ch\<in>set url. regexLeadingNotSpaces ch"
      "hd url \<noteq> 0x2C" "last url \<noteq> 0x2C"
    and sp: "sp \<noteq> []" "\<forall>ch\<in>set sp. regexLeadingSpaces ch"
    and desc: "desc \<noteq> []" "\<forall>ch\<in>set desc. ch \<notin> {0x09, 0x0A, 0x0C, 0x0D, 0x20, 0x2C, 0x28}"
  shows "parseSrcset (pre @ url @ sp @ desc @ post)
       = parseDescriptors (pre @ url @ sp @ desc @ post) url (int (length pre)) [desc] []"
proof -
  let ?input = "pre @ url @ sp @ desc @ post"
  let ?p1 = "int (length pre)"
  let ?p2 = "int (length (pre @ url))"
  let ?p3 = "int (length (pre @ url @ sp))"
  let ?p4 = "int (length (pre @ url @ sp @ desc))"
  have hd_url: "\<not> regexLeadingCommasOrSpaces (hd (url @ sp @ desc @ post))"
    using url by (cases url) (auto simp: regexLeadingCommasOrSpaces_def regexLeadingNotSpaces_def)
  have "takeWhile regexLeadingCommasOrSpaces (pre @ url @ sp @ desc @ post) = pre"
    using pre hd_url by (intro takeWhile_run) simp_all
  then have c1: "collectCharacters regexLeadingCommasOrSpaces ?input 0
      = (if pre = [] then None else Some pre, ?p1)"
    by (simp add: collectCharacters_def substring_def Let_def)
  have lt: "\<not> int (length ?input) \<le> ?p1" using url(1) by (cases url) simp_all
  have "\<not> regexLeadingNotSpaces (hd (sp @ desc @ post))"
    using sp by (cases sp) (auto simp: regexLeadingSpaces_def regexLeadingNotSpaces_def)
  then have "takeWhile regexLeadingNotSpaces (url @ sp @ desc @ post) = url"
    using url(2) by (intro takeWhile_run) simp_all
  then have c2: "collectCharacters regexLeadingNotSpaces ?input ?p1 = (Some url, ?p2)"
    using url(1) by (simp add: collectCharacters_def substring_def Let_def)
  have sl: "sliceLast url \<noteq> [0x2C]" using url(1,4) by (simp add: sliceLast_def)
  have "\<not> regexLeadingSpaces (hd (desc @ post))"
    using desc by (cases desc) (auto simp: regexLeadingSpaces_def)
  then have "takeWhile regexLeadingSpaces (sp @ desc @ post) = sp"
    using sp(2) by (intro takeWhile_run) simp_all
  then have c3: "collectCharacters regexLeadingSpaces ?input ?p2 = (Some sp, ?p3)"
    using sp(1) by (simp add: collectCharacters_def substring_def Let_def)
  have "tokenizeLoop ((pre @ url @ sp) @ desc @ post) ?p3 InDescriptor [] []
      = tokenizeLoop ((pre @ url @ sp) @ desc @ post) (?p3 + int (length desc)) InDescriptor
          ([] @ desc) []"
    using desc(2) by (rule tokenizeLoop_plain)
  then have t1: "tokenizeLoop ?input ?p3 InDescriptor [] []
      = tokenizeLoop ?input ?p4 InDescriptor desc []"
    by (simp add: add.assoc)
  obtain p where t2: "tokenizeLoop ((pre @ url @ sp @ desc) @ post) ?p4 InDescriptor desc []
      = ([] @ [desc], p)" and p: "?p4 \<le> p" "p \<le> int (length ((pre @ url @ sp @ desc) @ post))"
    using tokenizeLoop_descriptor_end[OF desc(1) post, of "pre @ url @ sp @ desc" "[]"] by blast
  have tl: "tokenizeLoop ?input ?p3 InDescriptor [] [] = ([desc], p)"
    using t1 t2 by simp
  have tok: "tokenize ?input url ?p1 ?p2 [] []
      = (case parseDescriptors ?input url ?p1 [desc] [] of
           Inl e \<Rightarrow> Inl e | Inr candidates \<Rightarrow> Inr (candidates, p))"
    by (simp only: tokenize_def c3 tl prod.case)
  have loop: "parseLoop ?input 0 []
      = (case tokenize ?input url ?p1 ?p2 [] [] of
           Inl e \<Rightarrow> Inl e
         | Inr (candidates, position) \<Rightarrow> parseLoop ?input position candidates)"
    using c1 lt c2 sl by (rule parseLoop_tokenize)
  show ?thesis
  proof (cases "parseDescriptors ?input url ?p1 [desc] []")
    case (Inl e)
    then show ?thesis by (simp only: parseSrcset_def loop tok sum.case)
  next
    case (Inr cs)
    then have "cs \<noteq> []" using parseDescriptors_Inr[OF Inr] by auto
    moreover have "0 \<le> p" using p(1) by simp
    moreover have "\<forall>ch\<in>set (drop (nat p) ?input). regexLeadingCommasOrSpaces ch"
    proof -
      have "length (pre @ url @ sp @ desc) \<le> nat p"
        using p(1) by linarith
      then have "drop (nat p) ((pre @ url @ sp @ desc) @ post)
          = drop (nat p - length (pre @ url @ sp @ desc)) post"
        by (rule drop_append_beyond)
      then have "set (drop (nat p) ?input) \<subseteq> set post"
        using set_drop_subset[of "nat p - length (pre @ url @ sp @ desc)" post] by simp
      then show ?thesis using post by blast
    qed
    ultimately have "parseLoop ?input p cs = Inr cs"
      by (intro parseLoop_trailing_separators)
    then show ?thesis by (simp only: parseSrcset_def loop tok Inr sum.case prod.case)
  qed
qed

subsection \<open>The error flag\<close>

lemma descriptorStep_error_kept: "fst vs \<Longrightarrow> fst (descriptorStep vs desc)"
  by (cases vs) (auto simp: descriptorStep_def Let_def)

lemma foldl_descriptorStep_error_kept:
  "fst vs \<Longrightarrow> fst (foldl descriptorStep vs descriptors)"
  by (induction descriptors arbitrary: vs) (simp_all add: descriptorStep_error_kept)

lemma foldl_descriptorStep_error:
  assumes "desc \<in> set descriptors" and "\<And>vs. fst (descriptorStep vs desc)"
  shows "fst (foldl descriptorStep vs descriptors)"
proof -
  from assms(1) obtain xs ys where "descriptors = xs @ desc # ys"
    by (auto dest: split_list)
  then show ?thesis
    by (simp add: foldl_descriptorStep_error_kept assms(2))
qed

lemma parseDescriptors_error:
  assumes "fst (foldl descriptorStep (False, None, None, None, None) descriptors)"
  shows "\<exists>d. parseDescriptors input url startOffs descriptors candidates
           = Inl (Error (invalidMessage input (Some d)))"
proof (cases "parseDescriptors input url startOffs descriptors candidates")
  case (Inl e)
  then show ?thesis using parseDescriptors_Inl by blast
next
  case (Inr res)
  then show ?thesis using assms
    by (auto simp: parseDescriptors_def split: prod.splits if_splits)
qed

lemma zero_dimension_error:
  assumes "regexNonNegativeInteger (butlast desc)"
    and "sliceLast desc = [0x77] \<or> sliceLast desc = [0x68]"
    and "strictEqualsZero (parseInt (butlast desc))"
  shows "fst (descriptorStep vs desc)"
  using assms by (cases vs) (auto simp: descriptorStep_def Let_def)

lemma negative_density_error:
  assumes "regexFloatingPoint (butlast desc)"
    and "sliceLast desc = [0x78]"
    and "lessThanZero (parseFloat (butlast desc))"
  shows "fst (descriptorStep vs desc)"
  using assms by (cases vs) (auto simp: descriptorStep_def Let_def)

subsection \<open>The states a parse goes through\<close>

text \<open>
  The states of the splitting loop that a parse goes through: \<open>position\<close> and
  \<open>candidates\<close> at the start, and after each iteration that pushed a candidate and
  returned to the step labeled splitting loop.
\<close>

inductive splitting :: "jsstring \<Rightarrow> int \<Rightarrow> candidate list \<Rightarrow> bool" for input where
  start: "splitting input 0 []"
| pushed:
    "splitting input position candidates \<Longrightarrow>
     collectCharacters regexLeadingCommasOrSpaces input position = (skipped, p1) \<Longrightarrow>
     p1 < int (length input) \<Longrightarrow>
     collectCharacters regexLeadingNotSpaces input p1 = (Some url, p2) \<Longrightarrow>
     sliceLast url = [0x2C] \<Longrightarrow>
     parseDescriptors input (replaceTrailingCommas url) p1 [] candidates = Inr candidates' \<Longrightarrow>
     splitting input p2 candidates'"
| tokenized:
    "splitting input position candidates \<Longrightarrow>
     collectCharacters regexLeadingCommasOrSpaces input position = (skipped, p1) \<Longrightarrow>
     p1 < int (length input) \<Longrightarrow>
     collectCharacters regexLeadingNotSpaces input p1 = (Some url, p2) \<Longrightarrow>
     sliceLast url \<noteq> [0x2C] \<Longrightarrow>
     tokenize input url p1 p2 [] candidates = Inr (candidates', p3) \<Longrightarrow>
     splitting input p3 candidates'"

code_pred (modes: i \<Rightarrow> o \<Rightarrow> o \<Rightarrow> bool) splitting .

lemma parseLoop_comma:
  assumes "collectCharacters regexLeadingCommasOrSpaces input position = (r, p1)"
    and "\<not> int (length input) \<le> p1"
    and "collectCharacters regexLeadingNotSpaces input p1 = (Some url, p2)"
    and "sliceLast url = [0x2C]"
  shows "parseLoop input position candidates =
           (case parseDescriptors input (replaceTrailingCommas url) p1 [] candidates of
              Inl e \<Rightarrow> Inl e
            | Inr candidates \<Rightarrow> parseLoop input p2 candidates)"
  using assms by (subst parseLoop.simps) simp

lemma splitting_parseLoop:
  "splitting input position candidates \<Longrightarrow>
     parseLoop input position candidates = parseSrcset input"
proof (induction rule: splitting.induct)
  case start
  show ?case by (simp add: parseSrcset_def)
next
  case (pushed position candidates skipped p1 url p2 candidates')
  have "parseLoop input position candidates = parseLoop input p2 candidates'"
    using parseLoop_comma[OF pushed(2) _ pushed(4,5), of candidates] pushed(3,6) by simp
  then show ?case using pushed.IH by simp
next
  case (tokenized position candidates skipped p1 url p2 candidates' p3)
  have "parseLoop input position candidates = parseLoop input p3 candidates'"
    using parseLoop_tokenize[OF tokenized(2) _ tokenized(4,5), of candidates] tokenized(3,6)
    by simp
  then show ?case using tokenized.IH by simp
qed

text \<open>An error flag raised for the candidate at a state of the loop ends the loop there.\<close>

lemma parseLoop_descriptor_error:
  assumes "collectCharacters regexLeadingCommasOrSpaces input position = (skipped, p1)"
    and "p1 < int (length input)"
    and "collectCharacters regexLeadingNotSpaces input p1 = (Some url, p2)"
    and "sliceLast url \<noteq> [0x2C]"
    and "collectCharacters regexLeadingSpaces input p2 = (spaces, p3)"
    and "tokenizeLoop input p3 InDescriptor [] [] = (descriptors, p4)"
    and "fst (foldl descriptorStep (False, None, None, None, None) descriptors)"
  shows "\<exists>d. parseLoop input position candidates = Inl (Error (invalidMessage input (Some d)))"
proof -
  obtain d where "parseDescriptors input url p1 descriptors candidates
      = Inl (Error (invalidMessage input (Some d)))"
    using parseDescriptors_error[OF assms(7)] by blast
  then have "tokenize input url p1 p2 [] candidates = Inl (Error (invalidMessage input (Some d)))"
    by (simp add: tokenize_def assms(5,6))
  then have "parseLoop input position candidates = Inl (Error (invalidMessage input (Some d)))"
    using parseLoop_tokenize[OF assms(1) _ assms(3,4), of candidates] assms(2) by simp
  then show ?thesis by blast
qed

section \<open>Evaluating the parser on concrete inputs\<close>

lemmas eval_simps =
  parseSrcset_def parseLoop.simps tokenize_def tokenizeLoop.simps tokenizeStep_def
  parseDescriptors_def
  descriptorStep_def collectCharacters_def substring_def regexLeadingNotSpaces_def
  regexLeadingSpaces_def regexLeadingCommasOrSpaces_def ascii_def charAt_def
  isASCIIWhitespace_def Let_def sliceLast_def replaceTrailingCommas_def truthy_def
  strictEqualsZero_def lessThanZero_def regexNonNegativeInteger_def regexFloatingPoint_def
  isDigit_def parseInt_def parseFloat_def matchFloatingPoint_def digitsValue_def pow10_def
  binary64_def floorLog2_def roundHalfEven_def pow2_def compute_bitlen invalidMessage_def
  emptyMessage_def

section \<open>The descriptor parser on zero and on errors\<close>

text \<open>
  C1. A density descriptor should flag an error whenever width, density or height is
  already set, so a second density descriptor should always fail the parse, also after
  \<open>0x\<close>. The parser tests \<open>w || d || h\<close>, and a density of \<open>0\<close> is falsy: on
  \<open>data:,a 0x 1x\<close> the second density descriptor raises no error, the parse succeeds and
  the candidate carries density 1.
\<close>

theorem second_density_after_zero_accepted:
  "foldl descriptorStep (False, None, None, None, None) [ascii ''0x'', ascii ''1x'']
     = (False, None, Some (Finite False 1), None, Some (ascii ''1x''))
   \<and> parseSrcset (ascii ''data:,a 0x 1x'') =
       Inr [\<lparr>source = \<lparr>sourceValue = ascii ''data:,a'', startOffset = 0\<rparr>,
             width = None, density = Some (Finite False 1), height = None\<rparr>]"
  by (simp add: eval_simps)

text \<open>
  C2. A candidate should carry a density field whenever a density descriptor was set.
  On \<open>data:,a 0x\<close> the descriptor parser sets \<open>d\<close> to \<open>0\<close> without error, and the
  candidate is built under \<open>if (d)\<close>: it has no density field.
\<close>

theorem zero_density_field_dropped:
  "foldl descriptorStep (False, None, None, None, None) [ascii ''0x'']
     = (False, None, Some (Finite False 0), None, Some (ascii ''0x''))
   \<and> parseSrcset (ascii ''data:,a 0x'') =
       Inr [\<lparr>source = \<lparr>sourceValue = ascii ''data:,a'', startOffset = 0\<rparr>,
             width = None, density = None, height = None\<rparr>]"
  by (simp add: eval_simps)

text \<open>
  C8. The message of the invalid-descriptor error should name the descriptor that
  raised the error flag. The loop runs on after the flag is raised and the message
  prints its variable \<open>desc\<close>, the last descriptor of the candidate: on
  \<open>data:,a foo 1x\<close> the flag is raised by \<open>foo\<close>, and the message names \<open>1x\<close>, which
  alone raises none.
\<close>

theorem error_message_names_last_descriptor:
  "parseSrcset (ascii ''data:,a foo 1x'') =
     Inl (Error (ascii ''Invalid srcset descriptor found in \"data:,a foo 1x\" at \"1x\".''))
   \<and> fst (descriptorStep (False, None, None, None, None) (ascii ''foo''))
   \<and> descriptorStep (False, None, None, None, None) (ascii ''1x'')
       = (False, None, Some (Finite False 1), None, Some (ascii ''1x''))"
  by (simp add: eval_simps)

text \<open>
  C4. A width or height descriptor of value zero and a density descriptor of a value
  below zero raise the error flag, whatever else the candidate's descriptors are, and
  the descriptor parser throws the invalid-descriptor error. So does the splitting
  loop from every state at which the tokenizer collects such a descriptor for the next
  candidate, and so does the parse when it goes through that state, for the first
  candidate as for a later one: on \<open>data:,a 0w\<close>, \<open>data:,a 0h\<close>, \<open>data:,a -1x\<close> and
  \<open>data:,a 1x, data:,b 0w\<close>. A density of \<open>0\<close> or \<open>-0\<close> parses: \<open>-0\<close> is read as the
  zero \<open>-0\<close>, which is not below zero.
\<close>

theorem zero_and_negative_magnitudes:
  assumes "desc \<in> set descriptors"
    and "regexNonNegativeInteger (butlast desc)
           \<and> (sliceLast desc = ascii ''w'' \<or> sliceLast desc = ascii ''h'')
           \<and> strictEqualsZero (parseInt (butlast desc))
         \<or> regexFloatingPoint (butlast desc) \<and> sliceLast desc = ascii ''x''
           \<and> lessThanZero (parseFloat (butlast desc))"
  shows "(\<exists>d. parseDescriptors input url startOffs descriptors candidates
            = Inl (Error (invalidMessage input (Some d))))
       \<and> (\<forall>position skipped p1 p2 spaces p3 p4.
            collectCharacters regexLeadingCommasOrSpaces input position = (skipped, p1)
            \<longrightarrow> p1 < int (length input)
            \<longrightarrow> collectCharacters regexLeadingNotSpaces input p1 = (Some url, p2)
            \<longrightarrow> sliceLast url \<noteq> ascii '',''
            \<longrightarrow> collectCharacters regexLeadingSpaces input p2 = (spaces, p3)
            \<longrightarrow> tokenizeLoop input p3 InDescriptor [] [] = (descriptors, p4)
            \<longrightarrow> (\<exists>d. parseLoop input position candidates
                       = Inl (Error (invalidMessage input (Some d))))
               \<and> (splitting input position candidates
                    \<longrightarrow> (\<exists>d. parseSrcset input
                               = Inl (Error (invalidMessage input (Some d))))))
       \<and> parseSrcset (ascii ''data:,a 0w'') =
           Inl (Error (ascii ''Invalid srcset descriptor found in \"data:,a 0w\" at \"0w\".''))
       \<and> parseSrcset (ascii ''data:,a 0h'') =
           Inl (Error (ascii ''Invalid srcset descriptor found in \"data:,a 0h\" at \"0h\".''))
       \<and> parseSrcset (ascii ''data:,a -1x'') =
           Inl (Error (ascii ''Invalid srcset descriptor found in \"data:,a -1x\" at \"-1x\".''))
       \<and> parseSrcset (ascii ''data:,a 1x, data:,b 0w'') =
           Inl (Error (ascii ''Invalid srcset descriptor found in \"data:,a 1x, data:,b 0w\" at \"0w\".''))
       \<and> parseSrcset (ascii ''data:,a 0x'') =
           Inr [\<lparr>source = \<lparr>sourceValue = ascii ''data:,a'', startOffset = 0\<rparr>,
                 width = None, density = None, height = None\<rparr>]
       \<and> parseSrcset (ascii ''data:,a -0x'') =
           Inr [\<lparr>source = \<lparr>sourceValue = ascii ''data:,a'', startOffset = 0\<rparr>,
                 width = None, density = None, height = None\<rparr>]
       \<and> parseFloat (ascii ''-0'') = Finite True 0
       \<and> strictEqualsZero (parseFloat (ascii ''-0''))
       \<and> \<not> lessThanZero (parseFloat (ascii ''-0''))"
proof -
  have "fst (descriptorStep vs desc)" for vs
    using assms(2) zero_dimension_error[of desc vs] negative_density_error[of desc vs]
    by (auto simp: ascii_def)
  then have flag: "fst (foldl descriptorStep (False, None, None, None, None) descriptors)"
    using assms(1) by (rule foldl_descriptorStep_error[rotated])
  then have "\<exists>d. parseDescriptors input url startOffs descriptors candidates
            = Inl (Error (invalidMessage input (Some d)))"
    by (rule parseDescriptors_error)
  moreover have "(\<exists>d. parseLoop input position candidates
                       = Inl (Error (invalidMessage input (Some d))))
               \<and> (splitting input position candidates
                    \<longrightarrow> (\<exists>d. parseSrcset input
                               = Inl (Error (invalidMessage input (Some d)))))"
    if "collectCharacters regexLeadingCommasOrSpaces input position = (skipped, p1)"
      and "p1 < int (length input)"
      and "collectCharacters regexLeadingNotSpaces input p1 = (Some url, p2)"
      and "sliceLast url \<noteq> ascii '',''"
      and "collectCharacters regexLeadingSpaces input p2 = (spaces, p3)"
      and "tokenizeLoop input p3 InDescriptor [] [] = (descriptors, p4)"
    for position skipped p1 p2 spaces p3 p4
  proof -
    have "sliceLast url \<noteq> [0x2C]" using that(4) by (simp add: ascii_def)
    from parseLoop_descriptor_error[OF that(1,2,3) this that(5,6) flag, of candidates]
    obtain d where "parseLoop input position candidates
        = Inl (Error (invalidMessage input (Some d)))"
      by blast
    then show ?thesis using splitting_parseLoop[of input position candidates] by metis
  qed
  moreover have "parseSrcset (ascii ''data:,a 0w'') =
           Inl (Error (ascii ''Invalid srcset descriptor found in \"data:,a 0w\" at \"0w\".''))"
    by (simp add: eval_simps)
  moreover have "parseSrcset (ascii ''data:,a 0h'') =
           Inl (Error (ascii ''Invalid srcset descriptor found in \"data:,a 0h\" at \"0h\".''))"
    by (simp add: eval_simps)
  moreover have "parseSrcset (ascii ''data:,a -1x'') =
           Inl (Error (ascii ''Invalid srcset descriptor found in \"data:,a -1x\" at \"-1x\".''))"
    by (simp add: eval_simps)
  moreover have "parseSrcset (ascii ''data:,a 1x, data:,b 0w'') =
           Inl (Error (ascii ''Invalid srcset descriptor found in \"data:,a 1x, data:,b 0w\" at \"0w\".''))"
    by (simp add: eval_simps)
  moreover have "parseSrcset (ascii ''data:,a 0x'') =
           Inr [\<lparr>source = \<lparr>sourceValue = ascii ''data:,a'', startOffset = 0\<rparr>,
                 width = None, density = None, height = None\<rparr>]"
    by (simp add: eval_simps)
  moreover have "parseSrcset (ascii ''data:,a -0x'') =
           Inr [\<lparr>source = \<lparr>sourceValue = ascii ''data:,a'', startOffset = 0\<rparr>,
                 width = None, density = None, height = None\<rparr>]"
    by (simp add: eval_simps)
  moreover have "parseFloat (ascii ''-0'') = Finite True 0"
    by (simp add: eval_simps)
  ultimately show ?thesis
    by (simp add: strictEqualsZero_def lessThanZero_def)
qed

theorem zero_and_negative_magnitudes_witness:
  "(\<exists>d. parseDescriptors (ascii ''a 1w 00h'') (ascii ''a'') 0 [ascii ''1w'', ascii ''00h''] []
        = Inl (Error (invalidMessage (ascii ''a 1w 00h'') (Some d))))
   \<and> (\<exists>d. parseDescriptors (ascii ''a -2.5e1x'') (ascii ''a'') 0 [ascii ''-2.5e1x''] []
        = Inl (Error (invalidMessage (ascii ''a -2.5e1x'') (Some d))))
   \<and> splitting (ascii ''data:,a 1x, data:,b 1h 0w'') 11
        [\<lparr>source = \<lparr>sourceValue = ascii ''data:,a'', startOffset = 0\<rparr>,
          width = None, density = Some (Finite False 1), height = None\<rparr>]
   \<and> tokenizeLoop (ascii ''data:,a 1x, data:,b 1h 0w'') 20 InDescriptor [] []
        = ([ascii ''1h'', ascii ''0w''], 25)
   \<and> (\<exists>d. parseSrcset (ascii ''data:,a 1x, data:,b 1h 0w'')
        = Inl (Error (invalidMessage (ascii ''data:,a 1x, data:,b 1h 0w'') (Some d))))"
proof -
  let ?input = "ascii ''data:,a 1x, data:,b 1h 0w''"
  let ?a = "\<lparr>source = \<lparr>sourceValue = ascii ''data:,a'', startOffset = 0\<rparr>,
          width = None, density = Some (Finite False 1), height = None\<rparr>"
  have h: "regexNonNegativeInteger (butlast (ascii ''00h''))
           \<and> (sliceLast (ascii ''00h'') = ascii ''w'' \<or> sliceLast (ascii ''00h'') = ascii ''h'')
           \<and> strictEqualsZero (parseInt (butlast (ascii ''00h'')))
         \<or> regexFloatingPoint (butlast (ascii ''00h'')) \<and> sliceLast (ascii ''00h'') = ascii ''x''
           \<and> lessThanZero (parseFloat (butlast (ascii ''00h'')))"
    by (simp add: eval_simps)
  have x: "regexNonNegativeInteger (butlast (ascii ''-2.5e1x''))
           \<and> (sliceLast (ascii ''-2.5e1x'') = ascii ''w'' \<or> sliceLast (ascii ''-2.5e1x'') = ascii ''h'')
           \<and> strictEqualsZero (parseInt (butlast (ascii ''-2.5e1x'')))
         \<or> regexFloatingPoint (butlast (ascii ''-2.5e1x'')) \<and> sliceLast (ascii ''-2.5e1x'') = ascii ''x''
           \<and> lessThanZero (parseFloat (butlast (ascii ''-2.5e1x'')))"
    by (simp add: eval_simps)
  have w: "regexNonNegativeInteger (butlast (ascii ''0w''))
           \<and> (sliceLast (ascii ''0w'') = ascii ''w'' \<or> sliceLast (ascii ''0w'') = ascii ''h'')
           \<and> strictEqualsZero (parseInt (butlast (ascii ''0w'')))
         \<or> regexFloatingPoint (butlast (ascii ''0w'')) \<and> sliceLast (ascii ''0w'') = ascii ''x''
           \<and> lessThanZero (parseFloat (butlast (ascii ''0w'')))"
    by (simp add: eval_simps)
  have first: "splitting ?input 11 [?a]"
  proof (rule splitting.tokenized[OF splitting.start])
    show "collectCharacters regexLeadingCommasOrSpaces ?input 0 = (None, 0)"
      by (simp add: eval_simps)
    show "0 < int (length ?input)" by (simp add: ascii_def)
    show "collectCharacters regexLeadingNotSpaces ?input 0 = (Some (ascii ''data:,a''), 7)"
      by (simp add: eval_simps)
    show "sliceLast (ascii ''data:,a'') \<noteq> [0x2C]" by (simp add: eval_simps)
    show "tokenize ?input (ascii ''data:,a'') 0 7 [] [] = Inr ([?a], 11)"
      by (simp add: eval_simps)
  qed
  have c1: "collectCharacters regexLeadingCommasOrSpaces ?input 11 = (Some (ascii '' ''), 12)"
    by (simp add: eval_simps)
  have lt: "12 < int (length ?input)" by (simp add: ascii_def)
  have c2: "collectCharacters regexLeadingNotSpaces ?input 12 = (Some (ascii ''data:,b''), 19)"
    by (simp add: eval_simps)
  have nc: "sliceLast (ascii ''data:,b'') \<noteq> ascii '',''" by (simp add: eval_simps)
  have c3: "collectCharacters regexLeadingSpaces ?input 19 = (Some (ascii '' ''), 20)"
    by (simp add: eval_simps)
  have tl: "tokenizeLoop ?input 20 InDescriptor [] [] = ([ascii ''1h'', ascii ''0w''], 25)"
    by (simp add: eval_simps)
  have "ascii ''00h'' \<in> set [ascii ''1w'', ascii ''00h'']" by simp
  note old = zero_and_negative_magnitudes[OF this h, of "ascii ''a 1w 00h''" "ascii ''a''" 0 "[]"]
    zero_and_negative_magnitudes[of "ascii ''-2.5e1x''" "[ascii ''-2.5e1x'']", OF _ x,
      of "ascii ''a -2.5e1x''" "ascii ''a''" 0 "[]"]
  have "ascii ''0w'' \<in> set [ascii ''1h'', ascii ''0w'']" by simp
  from zero_and_negative_magnitudes[OF this w, of ?input "ascii ''data:,b''" 0 "[?a]"]
  have "\<exists>d. parseSrcset ?input = Inl (Error (invalidMessage ?input (Some d)))"
    using c1 lt c2 nc c3 tl first by blast
  then show ?thesis using old first tl by simp
qed

section \<open>Inputs without candidates\<close>

text \<open>
  C3. An input made only of spaces, tabs, line feeds, form feeds, carriage returns and
  commas (the empty input included) fails with the no-candidates error.
\<close>

theorem separators_only_no_candidates:
  assumes "set input \<subseteq> {0x20, 0x09, 0x0A, 0x0C, 0x0D, 0x2C}"
  shows "parseSrcset input =
           Inl (Error (ascii ''Must contain one or more image candidate strings.''))"
proof -
  have all: "takeWhile regexLeadingCommasOrSpaces input = input"
    using assms by (auto simp: takeWhile_eq_all_conv regexLeadingCommasOrSpaces_def)
  have "collectCharacters regexLeadingCommasOrSpaces input 0
      = (if input = [] then None else Some input, int (length input))"
    by (simp add: collectCharacters_def substring_def Let_def all)
  then show ?thesis
    unfolding parseSrcset_def by (subst parseLoop.simps) (simp add: emptyMessage_def)
qed

theorem separators_only_no_candidates_witness:
  "parseSrcset [0x20, 0x2C, 0x09, 0x0A, 0x2C, 0x0C, 0x0D] =
     Inl (Error (ascii ''Must contain one or more image candidate strings.''))
   \<and> parseSrcset [] = Inl (Error (ascii ''Must contain one or more image candidate strings.''))"
  using separators_only_no_candidates[of "[0x20, 0x2C, 0x09, 0x0A, 0x2C, 0x0C, 0x0D]"]
    separators_only_no_candidates[of "[]"]
  by simp

section \<open>Candidates of a successful parse\<close>

text \<open>
  C5. No candidate of a successful parse carries a density together with a width or a
  height; width and height may come together, as on \<open>data:,a 1h 1w\<close>.
\<close>

theorem density_excludes_width_and_height:
  assumes "parseSrcset input = Inr candidates" and "c \<in> set candidates"
  shows "\<not> (width c \<noteq> None \<and> density c \<noteq> None)
       \<and> \<not> (height c \<noteq> None \<and> density c \<noteq> None)
       \<and> parseSrcset (ascii ''data:,a 1h 1w'') =
           Inr [\<lparr>source = \<lparr>sourceValue = ascii ''data:,a'', startOffset = 0\<rparr>,
                 width = Some (Finite False 1), density = None,
                 height = Some (Finite False 1)\<rparr>]"
proof -
  have "placed input c" using assms by (rule parseSrcset_placed)
  moreover have "parseSrcset (ascii ''data:,a 1h 1w'') =
           Inr [\<lparr>source = \<lparr>sourceValue = ascii ''data:,a'', startOffset = 0\<rparr>,
                 width = Some (Finite False 1), density = None,
                 height = Some (Finite False 1)\<rparr>]"
    by (simp add: eval_simps)
  ultimately show ?thesis by (auto simp: placed_def)
qed

theorem density_excludes_width_and_height_witness:
  "parseSrcset (ascii ''data:,a 2w, data:,b 1x'') =
     Inr [\<lparr>source = \<lparr>sourceValue = ascii ''data:,a'', startOffset = 0\<rparr>,
           width = Some (Finite False 2), density = None, height = None\<rparr>,
          \<lparr>source = \<lparr>sourceValue = ascii ''data:,b'', startOffset = 12\<rparr>,
           width = None, density = Some (Finite False 1), height = None\<rparr>]
   \<and> width \<lparr>source = \<lparr>sourceValue = ascii ''data:,b'', startOffset = 12\<rparr>,
           width = None, density = Some (Finite False 1), height = None\<rparr> = None"
proof -
  let ?b = "\<lparr>source = \<lparr>sourceValue = ascii ''data:,b'', startOffset = 12\<rparr>,
           width = None, density = Some (Finite False 1), height = None\<rparr>"
  have e: "parseSrcset (ascii ''data:,a 2w, data:,b 1x'') =
     Inr [\<lparr>source = \<lparr>sourceValue = ascii ''data:,a'', startOffset = 0\<rparr>,
           width = Some (Finite False 2), density = None, height = None\<rparr>, ?b]"
    by (simp add: eval_simps)
  have "?b \<in> set [\<lparr>source = \<lparr>sourceValue = ascii ''data:,a'', startOffset = 0\<rparr>,
           width = Some (Finite False 2), density = None, height = None\<rparr>, ?b]"
    by simp
  from density_excludes_width_and_height[OF e this] e show ?thesis by simp
qed

text \<open>
  C7. In a successful parse, every candidate's source value is the substring of the
  input that starts at the candidate's start offset and has the value's length, also
  when trailing commas were stripped from the collected URL.
\<close>

theorem source_value_is_substring_at_startOffset:
  assumes "parseSrcset input = Inr candidates" and "c \<in> set candidates"
  shows "0 \<le> startOffset (source c)
       \<and> take (length (sourceValue (source c))) (drop (nat (startOffset (source c))) input)
           = sourceValue (source c)"
  using parseSrcset_placed[OF assms] by (simp add: placed_def)

theorem source_value_is_substring_at_startOffset_witness:
  "parseSrcset (ascii ''  data:,a,,, b 1x'') =
     Inr [\<lparr>source = \<lparr>sourceValue = ascii ''data:,a'', startOffset = 2\<rparr>,
           width = None, density = None, height = None\<rparr>,
          \<lparr>source = \<lparr>sourceValue = ascii ''b'', startOffset = 13\<rparr>,
           width = None, density = Some (Finite False 1), height = None\<rparr>]
   \<and> take 7 (drop 2 (ascii ''  data:,a,,, b 1x'')) = ascii ''data:,a''"
proof -
  let ?a = "\<lparr>source = \<lparr>sourceValue = ascii ''data:,a'', startOffset = 2\<rparr>,
           width = None, density = None, height = None\<rparr>"
  let ?b = "\<lparr>source = \<lparr>sourceValue = ascii ''b'', startOffset = 13\<rparr>,
           width = None, density = Some (Finite False 1), height = None\<rparr>"
  have e: "parseSrcset (ascii ''  data:,a,,, b 1x'') = Inr [?a, ?b]"
    by (simp add: eval_simps)
  have "?a \<in> set [?a, ?b]" by simp
  from source_value_is_substring_at_startOffset[OF e this] e show ?thesis
    by (simp add: ascii_def)
qed

section \<open>Separators\<close>

text \<open>
  C6. In the in-parens state a whitespace character or a comma is appended to the
  current descriptor, and the state, the descriptor list and hence the candidate go
  on. On \<open>data:,a ( , data:,b 1x, ), data:,c\<close> the tokenizer, entered at index 8 after
  the URL and its space, collects the whole group as one descriptor and jumps to the
  descriptor parser after the comma that follows the group (index 26); that
  descriptor is invalid, and the parse fails naming it.
\<close>

theorem parens_suspend_separators:
  assumes "isASCIIWhitespace (charAt input position) \<or> charAt input position = ascii '',''"
  shows "tokenizeStep input position InParens currentDescriptor descriptors
           = Continue (position + 1) InParens (currentDescriptor @ charAt input position)
               descriptors
       \<and> collectCharacters regexLeadingNotSpaces (ascii ''data:,a ( , data:,b 1x, ), data:,c'') 0
           = (Some (ascii ''data:,a''), 7)
       \<and> collectCharacters regexLeadingSpaces (ascii ''data:,a ( , data:,b 1x, ), data:,c'') 7
           = (Some (ascii '' ''), 8)
       \<and> tokenizeLoop (ascii ''data:,a ( , data:,b 1x, ), data:,c'') 8 InDescriptor [] []
           = ([ascii ''( , data:,b 1x, )''], 26)
       \<and> parseSrcset (ascii ''data:,a ( , data:,b 1x, ), data:,c'') =
           Inl (Error (ascii ''Invalid srcset descriptor found in \"data:,a ( , data:,b 1x, ), data:,c\" at \"( , data:,b 1x, )\".''))"
proof -
  have "tokenizeStep input position InParens currentDescriptor descriptors
           = Continue (position + 1) InParens (currentDescriptor @ charAt input position)
               descriptors"
    using assms by (auto simp: tokenizeStep_def isASCIIWhitespace_def ascii_def)
  moreover have "collectCharacters regexLeadingNotSpaces (ascii ''data:,a ( , data:,b 1x, ), data:,c'') 0
           = (Some (ascii ''data:,a''), 7)"
    by (simp add: eval_simps)
  moreover have "collectCharacters regexLeadingSpaces (ascii ''data:,a ( , data:,b 1x, ), data:,c'') 7
           = (Some (ascii '' ''), 8)"
    by (simp add: eval_simps)
  moreover have "tokenizeLoop (ascii ''data:,a ( , data:,b 1x, ), data:,c'') 8 InDescriptor [] []
           = ([ascii ''( , data:,b 1x, )''], 26)"
    by (simp add: eval_simps)
  moreover have "parseSrcset (ascii ''data:,a ( , data:,b 1x, ), data:,c'') =
           Inl (Error (ascii ''Invalid srcset descriptor found in \"data:,a ( , data:,b 1x, ), data:,c\" at \"( , data:,b 1x, )\".''))"
    by (simp add: eval_simps)
  ultimately show ?thesis by simp
qed

theorem parens_suspend_separators_witness:
  "tokenizeStep (ascii ''data:,a ( , data:,b 1x, ), data:,c'') 10 InParens (ascii ''( '') []
     = Continue 11 InParens (ascii ''( ,'') []
   \<and> tokenizeStep (ascii ''data:,a ( , data:,b 1x, ), data:,c'') 11 InParens (ascii ''( ,'') []
     = Continue 12 InParens (ascii ''( , '') []"
proof -
  let ?input = "ascii ''data:,a ( , data:,b 1x, ), data:,c''"
  have c: "charAt ?input 10 = ascii '',''" and w: "charAt ?input 11 = ascii '' ''"
    by (simp_all add: charAt_def ascii_def)
  have "isASCIIWhitespace (charAt ?input 10) \<or> charAt ?input 10 = ascii '',''"
    using c by simp
  moreover have "isASCIIWhitespace (charAt ?input 11) \<or> charAt ?input 11 = ascii '',''"
    using w by (simp add: isASCIIWhitespace_def ascii_def)
  ultimately show ?thesis
    using parens_suspend_separators[of ?input 10 "ascii ''( ''" "[]"]
      parens_suspend_separators[of ?input 11 "ascii ''( ,''" "[]"] c w
    by (simp add: ascii_def)
qed

text \<open>
  C9, as stated. \<open> , ,data:,a 1x, \<close> and \<open>data:,a 1x\<close> should yield the same
  candidate. They do not: the candidate records the start offset of its URL, 4 in the
  first input and 0 in the second.
\<close>

theorem surrounding_separators_differ_counterexample:
  "parseSrcset (ascii '' , ,data:,a 1x, '') \<noteq> parseSrcset (ascii ''data:,a 1x'')"
  by (simp add: eval_simps)

text \<open>
  C9, amended. Runs of separators before and after a URL-plus-descriptor pair change
  the start offset of the candidate, which is the length of the leading run, and
  nothing else. The pair is a URL (not empty, without whitespace, without a comma at
  either end), a run of whitespace and a descriptor token (not empty, without
  whitespace, comma or left parenthesis) whose parse on its own succeeds. So
  \<open> , ,data:,a 1x, \<close> and \<open>data:,a 1x\<close> give the same source value and density, at
  the start offsets 4 and 0.
\<close>

theorem surrounding_separators_move_startOffset:
  assumes "set pre \<subseteq> {0x20, 0x09, 0x0A, 0x0C, 0x0D, 0x2C}"
    and "set post \<subseteq> {0x20, 0x09, 0x0A, 0x0C, 0x0D, 0x2C}"
    and "url \<noteq> []" and "set url \<inter> {0x20, 0x09, 0x0A, 0x0C, 0x0D} = {}"
    and "hd url \<noteq> 0x2C" and "last url \<noteq> 0x2C"
    and "sp \<noteq> []" and "set sp \<subseteq> {0x20, 0x09, 0x0A, 0x0C, 0x0D}"
    and "desc \<noteq> []" and "set desc \<inter> {0x20, 0x09, 0x0A, 0x0C, 0x0D, 0x2C, 0x28} = {}"
    and "parseSrcset (url @ sp @ desc) = Inr [c]"
  shows "parseSrcset (pre @ url @ sp @ desc @ post)
           = Inr [c\<lparr>source := \<lparr>sourceValue = url, startOffset = int (length pre)\<rparr>\<rparr>]
       \<and> source c = \<lparr>sourceValue = url, startOffset = 0\<rparr>
       \<and> parseSrcset (ascii '' , ,data:,a 1x, '') =
           Inr [\<lparr>source = \<lparr>sourceValue = ascii ''data:,a'', startOffset = 4\<rparr>,
                 width = None, density = Some (Finite False 1), height = None\<rparr>]
       \<and> parseSrcset (ascii ''data:,a 1x'') =
           Inr [\<lparr>source = \<lparr>sourceValue = ascii ''data:,a'', startOffset = 0\<rparr>,
                 width = None, density = Some (Finite False 1), height = None\<rparr>]"
proof -
  have pre: "\<forall>ch\<in>set pre. regexLeadingCommasOrSpaces ch"
    and post: "\<forall>ch\<in>set post. regexLeadingCommasOrSpaces ch"
    using assms(1,2) by (auto simp: regexLeadingCommasOrSpaces_def)
  have url: "\<forall>ch\<in>set url. regexLeadingNotSpaces ch"
    using assms(4) by (auto simp: regexLeadingNotSpaces_def)
  have sp: "\<forall>ch\<in>set sp. regexLeadingSpaces ch"
    using assms(8) by (auto simp: regexLeadingSpaces_def)
  have desc: "\<forall>ch\<in>set desc. ch \<notin> {0x09, 0x0A, 0x0C, 0x0D, 0x20, 0x2C, 0x28}"
    using assms(10) by auto
  have alone: "parseSrcset (url @ sp @ desc)
      = parseDescriptors (url @ sp @ desc) url 0 [desc] []"
    using parseSrcset_single_pair[of "[]" "[]" url sp desc] assms(3,5,6,7,9) url sp desc
    by simp
  have around: "parseSrcset (pre @ url @ sp @ desc @ post)
      = parseDescriptors (pre @ url @ sp @ desc @ post) url (int (length pre)) [desc] []"
    using pre post assms(3) url assms(5,6,7) sp assms(9) desc
    by (rule parseSrcset_single_pair)
  have "parseDescriptors (pre @ url @ sp @ desc @ post) url (int (length pre)) [desc] []
           = Inr [c\<lparr>source := \<lparr>sourceValue = url, startOffset = int (length pre)\<rparr>\<rparr>]
       \<and> source c = \<lparr>sourceValue = url, startOffset = 0\<rparr>"
    using assms(11)[unfolded alone]
    by (auto simp: parseDescriptors_def split: prod.splits if_splits)
  moreover have "parseSrcset (ascii '' , ,data:,a 1x, '') =
           Inr [\<lparr>source = \<lparr>sourceValue = ascii ''data:,a'', startOffset = 4\<rparr>,
                 width = None, density = Some (Finite False 1), height = None\<rparr>]"
    by (simp add: eval_simps)
  moreover have "parseSrcset (ascii ''data:,a 1x'') =
           Inr [\<lparr>source = \<lparr>sourceValue = ascii ''data:,a'', startOffset = 0\<rparr>,
                 width = None, density = Some (Finite False 1), height = None\<rparr>]"
    by (simp add: eval_simps)
  ultimately show ?thesis by (simp only: around)
qed

theorem surrounding_separators_move_startOffset_witness:
  "parseSrcset (ascii ''data:,a'' @ ascii '' '' @ ascii ''1x'') =
     Inr [\<lparr>source = \<lparr>sourceValue = ascii ''data:,a'', startOffset = 0\<rparr>,
           width = None, density = Some (Finite False 1), height = None\<rparr>]
   \<and> parseSrcset (ascii '' , ,'' @ ascii ''data:,a'' @ ascii '' '' @ ascii ''1x'' @ ascii '', '') =
     Inr [\<lparr>source = \<lparr>sourceValue = ascii ''data:,a'', startOffset = 4\<rparr>,
           width = None, density = Some (Finite False 1), height = None\<rparr>]"
proof -
  have e: "parseSrcset (ascii ''data:,a'' @ ascii '' '' @ ascii ''1x'') =
     Inr [\<lparr>source = \<lparr>sourceValue = ascii ''data:,a'', startOffset = 0\<rparr>,
           width = None, density = Some (Finite False 1), height = None\<rparr>]"
    by (simp add: eval_simps)
  have "parseSrcset (ascii '' , ,'' @ ascii ''data:,a'' @ ascii '' '' @ ascii ''1x'' @ ascii '', '')
      = Inr [\<lparr>source = \<lparr>sourceValue = ascii ''data:,a'', startOffset = 0\<rparr>,
           width = None, density = Some (Finite False 1), height = None\<rparr>
           \<lparr>source := \<lparr>sourceValue = ascii ''data:,a'',
                       startOffset = int (length (ascii '' , ,''))\<rparr>\<rparr>]"
    using surrounding_separators_move_startOffset[of "ascii '' , ,''" "ascii '', ''"
        "ascii ''data:,a''" "ascii '' ''" "ascii ''1x''", OF _ _ _ _ _ _ _ _ _ _ e]
    by (simp add: ascii_def)
  then show ?thesis using e by (simp add: ascii_def)
qed

section \<open>Termination\<close>

text \<open>
  C10. The parse of every input ends: the recursion of the tokenizer's loop and of the
  splitting loop is well-founded from every state (\<open>tokenizeLoop_dom\<close> and
  \<open>parseLoop_dom\<close> are the accessible parts of their call relations), every iteration
  of the tokenizer that continues, the rewind of the after-descriptor state included,
  lowers \<open>tokenizeMeasure\<close>, and the result is a candidate list or one of the two
  errors (never the \<open>TypeError\<close> of an undefined url).
\<close>

theorem parse_terminates:
  "tokenizeLoop_dom (input, position, state, currentDescriptor, descriptors)
   \<and> (\<forall>position' state' currentDescriptor' descriptors'.
        tokenizeStep input position state currentDescriptor descriptors
          = Continue position' state' currentDescriptor' descriptors'
        \<longrightarrow> tokenizeMeasure input position' state' < tokenizeMeasure input position state)
   \<and> parseLoop_dom (input, position, candidates)
   \<and> ((\<exists>result. parseSrcset input = Inr result)
      \<or> parseSrcset input =
           Inl (Error (ascii ''Must contain one or more image candidate strings.''))
      \<or> (\<exists>desc. parseSrcset input = Inl (Error (invalidMessage input (Some desc)))))"
proof -
  have "outcome input (parseSrcset input)" by (rule parseSrcset_outcome)
  then have "(\<exists>result. parseSrcset input = Inr result)
      \<or> parseSrcset input =
           Inl (Error (ascii ''Must contain one or more image candidate strings.''))
      \<or> (\<exists>desc. parseSrcset input = Inl (Error (invalidMessage input (Some desc))))"
    by (cases "parseSrcset input") (auto simp: outcome_def emptyMessage_def)
  then show ?thesis
    using tokenizeLoop_total parseLoop_total tokenizeStep_measure by blast
qed

theorem parse_terminates_witness:
  "tokenizeStep (ascii ''a  b'') 3 AfterDescriptor [] [ascii ''a'']
     = Continue 3 InDescriptor [] [ascii ''a'']
   \<and> tokenizeMeasure (ascii ''a  b'') 3 InDescriptor
       < tokenizeMeasure (ascii ''a  b'') 3 AfterDescriptor"
proof -
  have e: "tokenizeStep (ascii ''a  b'') 3 AfterDescriptor [] [ascii ''a'']
     = Continue 3 InDescriptor [] [ascii ''a'']"
    by (simp add: eval_simps)
  from parse_terminates[of "ascii ''a  b''" 3 AfterDescriptor "[]" "[ascii ''a'']"] e
  show ?thesis by blast
qed

end
